theory Spec2Isabelle
  imports Main "HOL-Library.AList" "HOL-Library.Sublist"
begin

section \<open>PrioritisedObject: a local mirror of one node of a remote data source\<close>

text \<open>
  The development embeds \<^verbatim>\<open>src/data/PrioritisedObject.js\<close>. The object is a record
  of its private properties; every method takes the object and returns it updated. A
  JavaScript exception does not roll the object back, so a failing call returns the error
  together with the object as it was when the exception was thrown.
\<close>

subsection \<open>Values\<close>

text \<open>Primitive JavaScript values: what a field, a key or a priority can hold.\<close>

datatype jsval = JUndefined | JNull | JBool bool | JNum int | JStr string

text \<open>The values that \<^verbatim>\<open>!x\<close> treats as false.\<close>

fun falsy :: "jsval \<Rightarrow> bool" where
  "falsy JUndefined = True"
| "falsy JNull = True"
| "falsy (JBool b) = (\<not> b)"
| "falsy (JNum n) = (n = 0)"
| "falsy (JStr s) = (s = [])"

text \<open>
  A property name given as an argument may be missing (\<^verbatim>\<open>undefined\<close>); used as a
  property key, \<^verbatim>\<open>undefined\<close> is the string "undefined".
\<close>

definition property_key :: "string option \<Rightarrow> string" where
  "property_key k = (case k of None \<Rightarrow> ''undefined'' | Some name \<Rightarrow> name)"

subsection \<open>The remote data source and its snapshots\<close>

text \<open>The write operations the object issues on its data source, in the order issued.\<close>

datatype ds_call =
    DsSetWithPriority "(string \<times> jsval) list" jsval
  | DsSetPriority jsval
  | DsRemove

text \<open>
  Modelled from the spec: the DataSource class (\<^verbatim>\<open>src/data/DataSource.js\<close>, the Remote
  Store Handle of the specification) is not among the sources. Its contract is a key, a
  readiness flag, one attach/detach pair per callback family, a one-shot value subscription
  and the write operations. A callback family is attached exactly when its flag is set;
  \<open>calls\<close> records the writes.
\<close>

record dataSource =
  ds_key :: jsval
  ready :: bool
  valueChangedCallback :: bool
  childAddedCallback :: bool
  childChangedCallback :: bool
  childMovedCallback :: bool
  childRemovedCallback :: bool
  onceValue :: bool
  calls :: "ds_call list"

definition setValueChangedCallback :: "dataSource \<Rightarrow> dataSource" where
  "setValueChangedCallback d = d\<lparr>valueChangedCallback := True\<rparr>"

definition removeValueChangedCallback :: "dataSource \<Rightarrow> dataSource" where
  "removeValueChangedCallback d = d\<lparr>valueChangedCallback := False\<rparr>"

definition setChildAddedCallback :: "dataSource \<Rightarrow> dataSource" where
  "setChildAddedCallback d = d\<lparr>childAddedCallback := True\<rparr>"

definition removeChildAddedCallback :: "dataSource \<Rightarrow> dataSource" where
  "removeChildAddedCallback d = d\<lparr>childAddedCallback := False\<rparr>"

definition removeChildChangedCallback :: "dataSource \<Rightarrow> dataSource" where
  "removeChildChangedCallback d = d\<lparr>childChangedCallback := False\<rparr>"

definition setChildMovedCallback :: "dataSource \<Rightarrow> dataSource" where
  "setChildMovedCallback d = d\<lparr>childMovedCallback := True\<rparr>"

definition removeChildMovedCallback :: "dataSource \<Rightarrow> dataSource" where
  "removeChildMovedCallback d = d\<lparr>childMovedCallback := False\<rparr>"

definition setChildRemovedCallback :: "dataSource \<Rightarrow> dataSource" where
  "setChildRemovedCallback d = d\<lparr>childRemovedCallback := True\<rparr>"

definition setReady :: "dataSource \<Rightarrow> dataSource" where
  "setReady d = d\<lparr>ready := True\<rparr>"

definition onceValueSubscribe :: "dataSource \<Rightarrow> dataSource" where
  "onceValueSubscribe d = d\<lparr>onceValue := True\<rparr>"

definition setWithPriority :: "(string \<times> jsval) list \<Rightarrow> jsval \<Rightarrow> dataSource \<Rightarrow> dataSource" where
  "setWithPriority data p d = d\<lparr>calls := calls d @ [DsSetWithPriority data p]\<rparr>"

definition setPriority :: "jsval \<Rightarrow> dataSource \<Rightarrow> dataSource" where
  "setPriority p d = d\<lparr>calls := calls d @ [DsSetPriority p]\<rparr>"


text \<open>
  Modelled from the spec: the Snapshot class is not among the sources. A snapshot is an
  immutable read of a remote node: its value, priority, key and originating handle. The
  value is a primitive (\<open>Leaf\<close>, with \<open>Leaf JNull\<close> for absent data) or a list of
  named children; the child count is the number of children of the value.
\<close>

datatype snapshot_value = Leaf jsval | Children "(string \<times> jsval) list"

record snapshot =
  snap_val :: snapshot_value
  snap_priority :: jsval
  snap_key :: jsval
  snap_ref :: dataSource

definition numChildren :: "snapshot \<Rightarrow> nat" where
  "numChildren snap = (case snap_val snap of Leaf v \<Rightarrow> 0 | Children kvs \<Rightarrow> length kvs)"

text \<open>
  The entries that \<^verbatim>\<open>for (let key in data)\<close> visits. The loop is only reached when
  the snapshot has children.
\<close>

definition entries :: "snapshot \<Rightarrow> (string \<times> jsval) list" where
  "entries snap = (case snap_val snap of Leaf v \<Rightarrow> [] | Children kvs \<Rightarrow> kvs)"

text \<open>
  The value a snapshot holds for a field name. The children are read as an object
  literal: a later entry for a name overrides an earlier one.
\<close>

definition snapshot_field :: "snapshot \<Rightarrow> string \<Rightarrow> jsval option" where
  "snapshot_field snap key = map_of (rev (entries snap)) key"

subsection \<open>Listeners, event arguments and the object\<close>

text \<open>The \<^verbatim>\<open>this\<close> a handler is called with: the object itself or another object.\<close>

datatype ctxt = This | Ctx nat

text \<open>
  A handler is a function of the caller, known by its identity, or the closure
  \<^verbatim>\<open>onceWrapper\<close> that \<^verbatim>\<open>once\<close> creates: it carries the promise it resolves (which
  also identifies the closure), and the event, handler and context it has captured.
\<close>

datatype handler = Fn nat | OnceWrapper nat string "nat option" ctxt

datatype listener = EE (fn: handler) (context_of: ctxt)

text \<open>
  The arguments of an event: the object itself, a primitive value, or the object
  \<^verbatim>\<open>{changedProperties, changedValues}\<close>.
\<close>

datatype arg = AThis | AVal jsval | AChange "string option list" "jsval list"

text \<open>What the object does that its environment observes: events emitted, handlers called.\<close>

datatype effect = Emit string "arg list" | Call nat ctxt "arg list"

datatype error = TypeError

datatype promise = Resolved arg | Rejected error

text \<open>
  The object. \<open>props\<close> are its own enumerable data properties that have no accessor
  yet, \<open>shadow\<close> the values of the properties that have one (\<^verbatim>\<open>this.shadow\<close>).
  The class never creates \<^verbatim>\<open>this.shadow\<close> itself: it is missing (\<open>None\<close>) until
  a field is given an accessor, and reading a property of it then is a TypeError;
  \<open>events\<close> is the listener table of the event emitter; \<open>trace\<close> and \<open>promises\<close>
  record what was emitted, called and resolved.
\<close>

record state =
  obj_id :: jsval
  priority :: jsval
  dataSource :: "dataSource option"
  changeListenersDisabled :: bool
  accessedKeys :: "string option list"
  events :: "string \<Rightarrow> listener list"
  props :: "(string \<times> jsval) list"
  shadow :: "(string \<times> jsval) list option"
  trace :: "effect list"
  promises :: "nat \<Rightarrow> promise option"
  next_promise :: nat

type_synonym result = "(error \<times> state) + state"

text \<open>
  A method call on \<^verbatim>\<open>this._dataSource\<close>: a TypeError when the object has no data
  source.
\<close>

definition with_dataSource :: "(dataSource \<Rightarrow> dataSource) \<Rightarrow> state \<Rightarrow> result" where
  "with_dataSource f s =
     (case dataSource s of
        None \<Rightarrow> Inl (TypeError, s)
      | Some d \<Rightarrow> Inr (s\<lparr>dataSource := Some (f d)\<rparr>))"

subsection \<open>The event emitter\<close>

text \<open>
  Modelled from the spec: the Event Channel is the eventemitter3 library, which is not
  among the sources. Each event type has a list of listeners in subscription order;
  \<^verbatim>\<open>listeners(type, true)\<close> tells whether the list is non-empty; removing a listener
  keeps those with another function or, when a context is given, another context, and
  removes all of the event's listeners when no function is given; removing all
  listeners of no event empties the table.
\<close>

definition hasListenersOfType :: "string \<Rightarrow> state \<Rightarrow> bool" where
  "hasListenersOfType type s = (events s type \<noteq> [])"

definition ee_on :: "string \<Rightarrow> handler \<Rightarrow> ctxt \<Rightarrow> state \<Rightarrow> state" where
  "ee_on event h c s = s\<lparr>events := (events s)(event := events s event @ [EE h c])\<rparr>"

definition keeps :: "handler \<Rightarrow> ctxt option \<Rightarrow> listener \<Rightarrow> bool" where
  "keeps f c l = (fn l \<noteq> f \<or> (case c of None \<Rightarrow> False | Some c' \<Rightarrow> context_of l \<noteq> c'))"

definition ee_removeListener :: "string \<Rightarrow> handler option \<Rightarrow> ctxt option \<Rightarrow> state \<Rightarrow> state" where
  "ee_removeListener event h c s =
     s\<lparr>events := (events s)(event :=
        (case h of None \<Rightarrow> [] | Some f \<Rightarrow> filter (keeps f c) (events s event)))\<rparr>"

text \<open>An event name is truthy unless it is missing or empty.\<close>

definition truthy_event :: "string option \<Rightarrow> bool" where
  "truthy_event event = (case event of None \<Rightarrow> False | Some e \<Rightarrow> e \<noteq> [])"

definition ee_removeAllListeners :: "string option \<Rightarrow> state \<Rightarrow> state" where
  "ee_removeAllListeners event s =
     (if truthy_event event then s\<lparr>events := (events s)(property_key event := [])\<rparr>
      else s\<lparr>events := (\<lambda>e. [])\<rparr>)"

subsection \<open>Unsubscribing\<close>

definition off :: "string option \<Rightarrow> handler option \<Rightarrow> ctxt option \<Rightarrow> state \<Rightarrow> result" where
  "off event h c s =
     (let s1 = (if truthy_event event \<and> (h \<noteq> None \<or> c \<noteq> None)
                then ee_removeListener (property_key event) h c s
                else ee_removeAllListeners event s)
      in if \<not> hasListenersOfType (property_key event) s1 then
           (case event of
              None \<Rightarrow> Inr s1
            | Some e \<Rightarrow>
                if e = ''ready'' then Inr s1
                else if e = ''value'' then
                  (if \<not> hasListenersOfType ''changed'' s1
                   then with_dataSource removeValueChangedCallback s1 else Inr s1)
                else if e = ''added'' then with_dataSource removeChildAddedCallback s1
                else if e = ''moved'' then with_dataSource removeChildMovedCallback s1
                else if e = ''removed'' then
                  (if \<not> hasListenersOfType ''value'' s1
                   then with_dataSource removeValueChangedCallback s1 else Inr s1)
                else if e = ''changed'' then with_dataSource removeChildChangedCallback s1
                else Inr s1)
         else Inr s1)"

subsection \<open>Calling handlers and emitting events\<close>

text \<open>
  A promise is settled once: \<^verbatim>\<open>resolve(...arguments)\<close> passes all the arguments, and
  the promise takes the first (\<^verbatim>\<open>undefined\<close> when there is none).
\<close>

definition resolve :: "nat \<Rightarrow> arg list \<Rightarrow> state \<Rightarrow> state" where
  "resolve p args s =
     (case promises s p of
        Some r \<Rightarrow> s
      | None \<Rightarrow> s\<lparr>promises := (promises s)(p \<mapsto>
                    Resolved (case args of [] \<Rightarrow> AVal JUndefined | a # rest \<Rightarrow> a))\<rparr>)"

definition reject :: "nat \<Rightarrow> error \<Rightarrow> state \<Rightarrow> state" where
  "reject p e s =
     (case promises s p of
        Some r \<Rightarrow> s
      | None \<Rightarrow> s\<lparr>promises := (promises s)(p \<mapsto> Rejected e)\<rparr>)"

text \<open>
  Calling a handler. A function of the caller is opaque: the call is recorded, and the
  function is taken not to call back into the object. The
  closure \<^verbatim>\<open>onceWrapper\<close> unsubscribes itself with the context that \<^verbatim>\<open>once\<close> was
  given, calls the handler it captured, if any, with that context, and resolves its
  promise.
\<close>

fun invoke :: "handler \<Rightarrow> ctxt \<Rightarrow> arg list \<Rightarrow> state \<Rightarrow> result" where
  "invoke (Fn f) c args s = Inr (s\<lparr>trace := trace s @ [Call f c args]\<rparr>)"
| "invoke (OnceWrapper p event h ctx) c args s =
     (case off (Some event) (Some (OnceWrapper p event h ctx)) (Some ctx) s of
        Inl e \<Rightarrow> Inl e
      | Inr s1 \<Rightarrow>
          Inr (resolve p args
                (case h of
                   None \<Rightarrow> s1
                 | Some f \<Rightarrow> s1\<lparr>trace := trace s1 @ [Call f ctx args]\<rparr>)))"

text \<open>
  \<^verbatim>\<open>emit\<close> calls the listeners that were subscribed when it started, in order, each
  with its own context; an exception in one of them ends the emission.
\<close>

fun invoke_all :: "listener list \<Rightarrow> arg list \<Rightarrow> state \<Rightarrow> result" where
  "invoke_all [] args s = Inr s"
| "invoke_all (l # ls) args s =
     (case invoke (fn l) (context_of l) args s of
        Inl e \<Rightarrow> Inl e
      | Inr s1 \<Rightarrow> invoke_all ls args s1)"

definition emit :: "string \<Rightarrow> arg list \<Rightarrow> state \<Rightarrow> result" where
  "emit event args s =
     invoke_all (events s event) args (s\<lparr>trace := trace s @ [Emit event args]\<rparr>)"

subsection \<open>Subscribing\<close>

definition on :: "string \<Rightarrow> handler \<Rightarrow> ctxt option \<Rightarrow> state \<Rightarrow> result" where
  "on event h c s =
     (let ctx = (case c of None \<Rightarrow> This | Some c' \<Rightarrow> c');
          haveListeners = hasListenersOfType event s;
          s1 = ee_on event h ctx s
      in if event = ''ready'' then
           (case dataSource s1 of
              None \<Rightarrow> Inr s1
            | Some d \<Rightarrow> if ready d then invoke h ctx [AThis] s1 else Inr s1)
         else if event = ''value'' then
           (if \<not> haveListeners then with_dataSource setValueChangedCallback s1
            else (case dataSource s1 of
                    None \<Rightarrow> Inl (TypeError, s1)
                  | Some d \<Rightarrow> if ready d then invoke h ctx [AThis] s1 else Inr s1))
         else if event = ''added'' then
           (if haveListeners then with_dataSource setChildAddedCallback s1 else Inr s1)
         else if event = ''changed'' then
           (if \<not> hasListenersOfType ''value'' s1
            then with_dataSource setValueChangedCallback s1 else Inr s1)
         else if event = ''moved'' then
           (if \<not> haveListeners then with_dataSource setChildMovedCallback s1 else Inr s1)
         else if event = ''removed'' then
           (if \<not> haveListeners then with_dataSource setChildRemovedCallback s1 else Inr s1)
         else Inr s1)"

text \<open>
  \<^verbatim>\<open>once\<close> returns a new promise and subscribes a new \<^verbatim>\<open>onceWrapper\<close> with the
  object as context. It runs inside the promise's executor, so an exception of
  \<^verbatim>\<open>on\<close> rejects the promise instead of reaching the caller.
\<close>

definition once :: "string \<Rightarrow> nat option \<Rightarrow> ctxt option \<Rightarrow> state \<Rightarrow> nat \<times> state" where
  "once event h c s =
     (let p = next_promise s;
          ctx = (case c of None \<Rightarrow> This | Some c' \<Rightarrow> c')
      in case on event (OnceWrapper p event h ctx) (Some This) (s\<lparr>next_promise := Suc p\<rparr>) of
           Inl (e, s1) \<Rightarrow> (p, reject p e s1)
         | Inr s1 \<Rightarrow> (p, s1))"

subsection \<open>Suspension, the setter hook and field writes\<close>

definition disableChangeListener :: "state \<Rightarrow> state" where
  "disableChangeListener s = s\<lparr>changeListenersDisabled := True\<rparr>"

definition enableChangeListener :: "state \<Rightarrow> state" where
  "enableChangeListener s = s\<lparr>changeListenersDisabled := False\<rparr>"

text \<open>
  \<^verbatim>\<open>this.shadow[key]\<close> on an existing shadow: the value, or \<^verbatim>\<open>undefined\<close> when
  the shadow has no such key.
\<close>

definition shadow_get :: "(string \<times> jsval) list \<Rightarrow> string option \<Rightarrow> jsval" where
  "shadow_get sh key =
     (case map_of sh (property_key key) of None \<Rightarrow> JUndefined | Some v \<Rightarrow> v)"

text \<open>The entries of the shadow, none while it is missing, and the value it has for a key.\<close>

definition shadow_entries :: "state \<Rightarrow> (string \<times> jsval) list" where
  "shadow_entries s = (case shadow s of None \<Rightarrow> [] | Some sh \<Rightarrow> sh)"

definition shadow_lookup :: "state \<Rightarrow> string \<Rightarrow> jsval option" where
  "shadow_lookup s key = (case shadow s of None \<Rightarrow> None | Some sh \<Rightarrow> map_of sh key)"

text \<open>
  The set hook. Not suspended, it reads \<^verbatim>\<open>this.shadow[key]\<close> for the changed keys,
  of which there is at least one: a TypeError when the shadow is missing, before
  anything is emitted or pushed. The push sends the enumerable properties of the shadow,
  which an emission does not change.
\<close>

definition onSetterTriggered :: "string option \<Rightarrow> state \<Rightarrow> result" where
  "onSetterTriggered key s =
     (if \<not> changeListenersDisabled s then
        (let changedProperties = accessedKeys s @ [key]
         in case shadow s of
              None \<Rightarrow> Inl (TypeError, s)
            | Some sh \<Rightarrow>
               (let changedValues = map (shadow_get sh) changedProperties
                in case emit ''changed'' [AThis, AChange changedProperties changedValues] s of
                     Inl e \<Rightarrow> Inl e
                   | Inr s1 \<Rightarrow>
                      (case shadow s1 of
                         None \<Rightarrow> Inl (TypeError, s1)
                       | Some sh1 \<Rightarrow> with_dataSource (setWithPriority sh1 (priority s1)) s1)))
      else Inr (s\<lparr>accessedKeys := accessedKeys s @ [key]\<rparr>))"

text \<open>
  Modelled from the spec: ObjectHelper (the Property Reflector) is not among the sources.
  \<^verbatim>\<open>addPropertyToObject\<close> defines the field as an enumerable accessor whose value is
  kept in the shadow, which it creates when missing, without calling the set hook; a
  later write to such a field stores the value and then calls the set hook. A write to
  a property without accessor is a plain assignment. A read returns the current value.
\<close>

definition addPropertyToObject :: "string \<Rightarrow> jsval \<Rightarrow> state \<Rightarrow> state" where
  "addPropertyToObject key v s =
     s\<lparr>shadow := Some (AList.update key v (shadow_entries s)),
       props := AList.delete key (props s)\<rparr>"

definition set_field :: "string \<Rightarrow> jsval \<Rightarrow> state \<Rightarrow> result" where
  "set_field key v s =
     (if shadow_lookup s key \<noteq> None
      then onSetterTriggered (Some key)
             (s\<lparr>shadow := Some (AList.update key v (shadow_entries s))\<rparr>)
      else Inr (s\<lparr>props := AList.update key v (props s)\<rparr>))"

definition get_field :: "state \<Rightarrow> string \<Rightarrow> jsval" where
  "get_field s key =
     (case shadow_lookup s key of
        Some v \<Rightarrow> v
      | None \<Rightarrow> (case map_of (props s) key of Some v \<Rightarrow> v | None \<Rightarrow> JUndefined))"

text \<open>The test of \<^verbatim>\<open>_buildFromSnapshot\<close>: an own property that is enumerable.\<close>

definition own_enumerable :: "string \<Rightarrow> state \<Rightarrow> bool" where
  "own_enumerable key s = (map_of (props s) key \<noteq> None \<or> shadow_lookup s key \<noteq> None)"

definition set_priority :: "jsval \<Rightarrow> state \<Rightarrow> result" where
  "set_priority v s =
     (if priority s \<noteq> v then with_dataSource (setPriority v) (s\<lparr>priority := v\<rparr>)
      else Inr s)"

subsection \<open>Building from a snapshot\<close>

fun build_fields :: "(string \<times> jsval) list \<Rightarrow> state \<Rightarrow> state" where
  "build_fields [] s = s"
| "build_fields ((key, v) # rest) s =
     build_fields rest (if own_enumerable key s then addPropertyToObject key v s else s)"

definition buildFromSnapshot :: "snapshot \<Rightarrow> state \<Rightarrow> result" where
  "buildFromSnapshot snap s =
     (let s1 = s\<lparr>priority := snap_priority snap\<rparr>;
          s2 = (if falsy (obj_id s1) then s1\<lparr>obj_id := snap_key snap\<rparr> else s1);
          s3 = (if dataSource s2 = None then s2\<lparr>dataSource := Some (snap_ref snap)\<rparr> else s2)
      in if numChildren snap = 0 then
           (case with_dataSource setReady s3 of
              Inl e \<Rightarrow> Inl e
            | Inr s4 \<Rightarrow> emit ''ready'' [] s4)
         else
           (case with_dataSource setReady (build_fields (entries snap) s3) of
              Inl e \<Rightarrow> Inl e
            | Inr s4 \<Rightarrow> emit ''ready'' [] s4))"

definition buildFromDataSource :: "dataSource option \<Rightarrow> state \<Rightarrow> result" where
  "buildFromDataSource d s =
     (case d of None \<Rightarrow> Inr s | Some d' \<Rightarrow> with_dataSource onceValueSubscribe s)"

definition buildFromSnapshotWithoutSynchronizing :: "snapshot \<Rightarrow> state \<Rightarrow> result" where
  "buildFromSnapshotWithoutSynchronizing snap s =
     (case buildFromSnapshot snap (disableChangeListener s) of
        Inl e \<Rightarrow> Inl e
      | Inr s1 \<Rightarrow> Inr (enableChangeListener s1))"

text \<open>
  The constructor. \<open>declared\<close> are the enumerable data properties that the concrete
  type has defined on the instance when the constructor body runs: the schema.
\<close>

definition constructor ::
  "(string \<times> jsval) list \<Rightarrow> dataSource option \<Rightarrow> snapshot option \<Rightarrow> result" where
  "constructor declared d dataSnapshot =
     (let this = \<lparr>obj_id = (case d of None \<Rightarrow> JNum 0 | Some d' \<Rightarrow> ds_key d'),
                  priority = JNum 0,
                  dataSource = d,
                  changeListenersDisabled = False,
                  accessedKeys = [],
                  events = (\<lambda>e. []),
                  props = declared,
                  shadow = None,
                  trace = [],
                  promises = (\<lambda>p. None),
                  next_promise = 0\<rparr>
      in case dataSnapshot of
           Some snap \<Rightarrow> buildFromSnapshot snap this
         | None \<Rightarrow> buildFromDataSource d this)"

subsection \<open>Incoming value notifications\<close>

text \<open>
  \<^verbatim>\<open>import every from 'lodash/every.js'\<close>: the imported value is a function, and a
  function is truthy.
\<close>

definition every :: bool where
  "every = True"

text \<open>
  \<^verbatim>\<open>_getDiffingKeysFromOther\<close> filters the keys of the incoming data and drops the
  result: it has no \<^verbatim>\<open>return\<close>, so the caller receives \<^verbatim>\<open>undefined\<close>. It is only
  called while change listeners are disabled, where reading a field has no effect.
\<close>

definition getDiffingKeysFromOther :: "(string \<times> jsval) list \<Rightarrow> state \<Rightarrow> jsval" where
  "getDiffingKeysFromOther otherObject s = JUndefined"

definition onChildValue :: "snapshot \<Rightarrow> jsval \<Rightarrow> state \<Rightarrow> result" where
  "onChildValue dataSnapshot previousSiblingID s =
     (let s1 = disableChangeListener s;
          incomingData = entries dataSnapshot;
          changedPropertyNames = getDiffingKeysFromOther incomingData s1
      in if every then
           (case emit ''value'' [AThis, AVal previousSiblingID] s1 of
              Inl e \<Rightarrow> Inl e
            | Inr s2 \<Rightarrow> Inr (enableChangeListener s2))
         else
           (case buildFromSnapshotWithoutSynchronizing dataSnapshot s1 of
              Inl e \<Rightarrow> Inl e
            | Inr s2 \<Rightarrow>
               (case emit ''value'' [AThis, AVal previousSiblingID] s2 of
                  Inl e \<Rightarrow> Inl e
                | Inr s3 \<Rightarrow>
                   (case (if hasListenersOfType ''changed'' s3
                          then emit ''changed'' [AThis, AVal changedPropertyNames] s3
                          else Inr s3) of
                      Inl e \<Rightarrow> Inl e
                    | Inr s4 \<Rightarrow> Inr (enableChangeListener s4)))))"

subsection \<open>The other remote notifications\<close>




subsection \<open>Transactions\<close>

text \<open>
  What the function given to \<^verbatim>\<open>transaction\<close> can do to the object: write a field,
  write the priority, disable or enable the change listener, or run a transaction of
  its own.
\<close>

datatype action =
    Write string jsval
  | WritePriority jsval
  | Disable
  | Enable
  | Nested "action list"

fun run :: "action \<Rightarrow> state \<Rightarrow> result"
  and run_all :: "action list \<Rightarrow> state \<Rightarrow> result"
  and transaction :: "action list \<Rightarrow> state \<Rightarrow> result" where
  "run (Write key v) s = set_field key v s"
| "run (WritePriority v) s = set_priority v s"
| "run Disable s = Inr (disableChangeListener s)"
| "run Enable s = Inr (enableChangeListener s)"
| "run (Nested method) s = transaction method s"
| "run_all [] s = Inr s"
| "run_all (a # rest) s =
     (case run a s of
        Inl e \<Rightarrow> Inl e
      | Inr s1 \<Rightarrow> run_all rest s1)"
| "transaction method s =
     (case run_all method (disableChangeListener s) of
        Inl e \<Rightarrow> Inl e
      | Inr s1 \<Rightarrow> onSetterTriggered None (enableChangeListener s1))"



subsection \<open>Removal\<close>


subsection \<open>Observations\<close>

text \<open>
  The object a call leaves behind, whether it returned or threw, and whether it returned.
\<close>

definition final :: "result \<Rightarrow> state" where
  "final r = (case r of Inl (e, s) \<Rightarrow> s | Inr s \<Rightarrow> s)"

definition returns :: "result \<Rightarrow> bool" where
  "returns r = (case r of Inl e \<Rightarrow> False | Inr s \<Rightarrow> True)"

text \<open>The writes issued so far on the object's data source, oldest first.\<close>

definition ds_calls :: "state \<Rightarrow> ds_call list" where
  "ds_calls s = (case dataSource s of None \<Rightarrow> [] | Some d \<Rightarrow> calls d)"

text \<open>The events emitted so far, with their arguments, oldest first.\<close>

fun emits :: "effect list \<Rightarrow> (string \<times> arg list) list" where
  "emits [] = []"
| "emits (Emit event args # rest) = (event, args) # emits rest"
| "emits (Call f c args # rest) = emits rest"

definition emitted :: "state \<Rightarrow> (string \<times> arg list) list" where
  "emitted s = emits (trace s)"

text \<open>
  Two objects that differ at most in their listeners, the callbacks attached to the data
  source, the handler calls recorded and the promises: same fields, priority,
  suspension flag and pending keys, same writes issued, same events emitted.
\<close>

definition quiet :: "state \<Rightarrow> state \<Rightarrow> bool" where
  "quiet s s' =
     (priority s' = priority s \<and> changeListenersDisabled s' = changeListenersDisabled s \<and>
      accessedKeys s' = accessedKeys s \<and> props s' = props s \<and> shadow s' = shadow s \<and>
      ds_calls s' = ds_calls s \<and> (dataSource s' = None) = (dataSource s = None) \<and>
      emitted s' = emitted s)"

subsection \<open>Sequences of operations\<close>




subsection \<open>A concrete object\<close>

text \<open>
  The scenario of the specification: schema \<^verbatim>\<open>{name, score}\<close> and the snapshot
  \<^verbatim>\<open>{name: "Ann", score: 1}\<close> at priority 5. \<open>example_object\<close> is the object the
  constructor builds from them.
\<close>

definition example_handle :: dataSource where
  "example_handle =
     \<lparr>ds_key = JStr ''ann'', ready = False, valueChangedCallback = False,
      childAddedCallback = False, childChangedCallback = False, childMovedCallback = False,
      childRemovedCallback = False, onceValue = False, calls = []\<rparr>"

definition example_snapshot :: snapshot where
  "example_snapshot =
     \<lparr>snap_val = Children [(''name'', JStr ''Ann''), (''score'', JNum 1)],
      snap_priority = JNum 5, snap_key = JStr ''ann'', snap_ref = example_handle\<rparr>"

definition example_schema :: "(string \<times> jsval) list" where
  "example_schema = [(''name'', JUndefined), (''score'', JUndefined)]"

definition example_object :: state where
  "example_object =
     \<lparr>obj_id = JStr ''ann'', priority = JNum 5,
      dataSource = Some (example_handle\<lparr>ready := True\<rparr>),
      changeListenersDisabled = False, accessedKeys = [], events = (\<lambda>e. []),
      props = [], shadow = Some [(''name'', JStr ''Ann''), (''score'', JNum 1)],
      trace = [Emit ''ready'' []], promises = (\<lambda>p. None), next_promise = 0\<rparr>"

text \<open>
  An object of the same schema built from a snapshot without children: no field has an
  accessor and the shadow is missing.
\<close>

definition example_empty_snapshot :: snapshot where
  "example_empty_snapshot =
     \<lparr>snap_val = Leaf JNull, snap_priority = JNull, snap_key = JStr ''ann'',
      snap_ref = example_handle\<rparr>"

definition example_empty_object :: state where
  "example_empty_object =
     \<lparr>obj_id = JStr ''ann'', priority = JNull,
      dataSource = Some (example_handle\<lparr>ready := True\<rparr>),
      changeListenersDisabled = False, accessedKeys = [], events = (\<lambda>e. []),
      props = example_schema, shadow = None,
      trace = [Emit ''ready'' []], promises = (\<lambda>p. None), next_promise = 0\<rparr>"

text \<open>The example object after \<^verbatim>\<open>on('changed', handler)\<close>.\<close>

definition example_listening :: state where
  "example_listening =
     example_object\<lparr>events := (events example_object)(''changed'' := [EE (Fn 1) This]),
                    dataSource := Some (example_handle\<lparr>ready := True, valueChangedCallback := True\<rparr>)\<rparr>"

text \<open>A later snapshot of the same node, reporting another score.\<close>

definition example_update :: snapshot where
  "example_update = example_snapshot\<lparr>snap_val := Children [(''name'', JStr ''Ann''), (''score'', JNum 2)]\<rparr>"

text \<open>The example object after \<^verbatim>\<open>on('added', handler)\<close>.\<close>

definition example_second_added :: state where
  "example_second_added =
     example_object\<lparr>events := (events example_object)(''added'' := [EE (Fn 1) This])\<rparr>"

text \<open>The example object after \<^verbatim>\<open>once('moved', handler, context)\<close>.\<close>

definition example_once :: state where
  "example_once =
     example_object\<lparr>events := (events example_object)
                      (''moved'' := [EE (OnceWrapper 0 ''moved'' (Some 7) (Ctx 1)) This]),
                    dataSource := Some (example_handle\<lparr>ready := True, childMovedCallback := True\<rparr>),
                    next_promise := 1\<rparr>"

section \<open>Properties\<close>

subsection \<open>What listeners, handlers and emissions leave unchanged\<close>

lemma quiet_refl: "quiet s s"
  by (simp add: quiet_def)

lemma quiet_trans: "quiet a b \<Longrightarrow> quiet b c \<Longrightarrow> quiet a c"
  by (simp add: quiet_def)

lemma emits_append: "emits (xs @ ys) = emits xs @ emits ys"
  by (induction xs rule: emits.induct) simp_all

lemma final_simps: "final (Inr s) = s" "final (Inl (e, s)) = s"
  by (simp_all add: final_def)

lemma returns_simps: "returns (Inr s) = True" "returns (Inl x) = False"
  by (simp_all add: returns_def)

lemma with_dataSource_quiet:
  assumes "\<And>d. calls (f d) = calls d"
  shows "quiet s (final (with_dataSource f s))"
  using assms by (simp add: with_dataSource_def quiet_def ds_calls_def emitted_def final_def split: option.splits)

lemma with_dataSource_returns: "dataSource s \<noteq> None \<Longrightarrow> returns (with_dataSource f s)"
  by (auto simp: with_dataSource_def returns_def split: option.splits)

lemma with_dataSource_events: "events (final (with_dataSource f s)) = events s"
  by (simp add: with_dataSource_def final_def split: option.splits)

lemma callbacks_keep_calls:
  "calls (setValueChangedCallback d) = calls d"
  "calls (removeValueChangedCallback d) = calls d"
  "calls (setChildAddedCallback d) = calls d"
  "calls (removeChildAddedCallback d) = calls d"
  "calls (removeChildChangedCallback d) = calls d"
  "calls (setChildMovedCallback d) = calls d"
  "calls (removeChildMovedCallback d) = calls d"
  "calls (setChildRemovedCallback d) = calls d"
  "calls (setReady d) = calls d"
  "calls (onceValueSubscribe d) = calls d"
  by (simp_all add: setValueChangedCallback_def removeValueChangedCallback_def
      setChildAddedCallback_def removeChildAddedCallback_def removeChildChangedCallback_def
      setChildMovedCallback_def removeChildMovedCallback_def setChildRemovedCallback_def
      setReady_def onceValueSubscribe_def)

lemma ee_quiet:
  "quiet s (ee_on event h c s)"
  "quiet s (ee_removeListener event ho co s)"
  "quiet s (ee_removeAllListeners eo s)"
  by (simp_all add: quiet_def ee_on_def ee_removeListener_def ee_removeAllListeners_def
      ds_calls_def emitted_def)

lemma off_quiet: "quiet s (final (off event h c s))"
proof -
  define s1 where "s1 = (if truthy_event event \<and> (h \<noteq> None \<or> c \<noteq> None)
                then ee_removeListener (property_key event) h c s
                else ee_removeAllListeners event s)"
  have q1: "quiet s s1" by (simp add: s1_def ee_quiet)
  have "quiet s1 (final (off event h c s))"
    unfolding off_def s1_def[symmetric] Let_def
    by (auto simp: final_simps quiet_refl with_dataSource_quiet callbacks_keep_calls split: option.splits)
  with q1 show ?thesis by (rule quiet_trans)
qed

lemma off_returns: "dataSource s \<noteq> None \<Longrightarrow> returns (off event h c s)"
  unfolding off_def Let_def
  by (auto simp: returns_simps with_dataSource_returns ee_removeListener_def ee_removeAllListeners_def split: option.splits)

lemma resolve_quiet: "quiet s (resolve p args s)"
  by (simp add: resolve_def quiet_def ds_calls_def emitted_def split: option.splits)

lemma log_call_quiet: "quiet s (s\<lparr>trace := trace s @ [Call f c args]\<rparr>)"
  by (simp add: quiet_def ds_calls_def emitted_def emits_append)

lemma invoke_quiet: "quiet s (final (invoke h c args s))"
proof (cases h)
  case (Fn f)
  then show ?thesis by (simp add: final_simps log_call_quiet)
next
  case (OnceWrapper p event ho ctx)
  show ?thesis
  proof (cases "off (Some event) (Some h) (Some ctx) s")
    case (Inl es)
    then show ?thesis using off_quiet[of s "Some event" "Some h" "Some ctx"] OnceWrapper
      by (cases es) (simp add: final_simps)
  next
    case (Inr s1)
    then have "quiet s s1" using off_quiet[of s "Some event" "Some h" "Some ctx"]
      by (simp add: final_simps)
    moreover have "quiet s1 (final (invoke h c args s))"
      using Inr OnceWrapper
      by (auto simp: final_simps resolve_quiet split: option.splits
          intro: quiet_trans[OF log_call_quiet resolve_quiet])
    ultimately show ?thesis by (rule quiet_trans)
  qed
qed

lemma invoke_returns:
  assumes "dataSource s \<noteq> None"
  shows "returns (invoke h c args s)"
proof (cases h)
  case (Fn f)
  then show ?thesis by (simp add: returns_simps)
next
  case (OnceWrapper p event ho ctx)
  from assms have "returns (off (Some event) (Some h) (Some ctx) s)"
    by (rule off_returns)
  then show ?thesis using OnceWrapper
    by (auto simp: returns_def split: sum.splits)
qed

lemma invoke_all_quiet: "quiet s (final (invoke_all ls args s))"
proof (induction ls arbitrary: s)
  case Nil
  then show ?case by (simp add: final_simps quiet_refl)
next
  case (Cons l ls)
  show ?case
  proof (cases "invoke (fn l) (context_of l) args s")
    case (Inl es)
    then show ?thesis using invoke_quiet[of s "fn l" "context_of l" args]
      by (cases es) (simp add: final_simps)
  next
    case (Inr s1)
    then have "quiet s s1" using invoke_quiet[of s "fn l" "context_of l" args]
      by (simp add: final_simps)
    moreover have "quiet s1 (final (invoke_all (l # ls) args s))"
      using Inr Cons.IH[of s1] by simp
    ultimately show ?thesis by (rule quiet_trans)
  qed
qed

lemma invoke_all_returns: "dataSource s \<noteq> None \<Longrightarrow> returns (invoke_all ls args s)"
proof (induction ls arbitrary: s)
  case Nil
  then show ?case by (simp add: returns_simps)
next
  case (Cons l ls)
  from Cons.prems have r: "returns (invoke (fn l) (context_of l) args s)"
    by (rule invoke_returns)
  then obtain s1 where s1: "invoke (fn l) (context_of l) args s = Inr s1"
    by (auto simp: returns_def split: sum.splits)
  have "quiet s s1" using invoke_quiet[of s "fn l" "context_of l" args] s1
    by (simp add: final_simps)
  with Cons.prems have "dataSource s1 \<noteq> None" by (simp add: quiet_def)
  then show ?case using Cons.IH[of s1] s1 by simp
qed

text \<open>
  Emitting an event adds the emission to the trace and otherwise changes the object only
  through the handlers called: no write is issued and no field changes.
\<close>

lemma emit_quiet:
  "quiet (s\<lparr>trace := trace s @ [Emit event args]\<rparr>) (final (emit event args s))"
  unfolding emit_def using invoke_all_quiet[of "s\<lparr>trace := trace s @ [Emit event args]\<rparr>"]
  by simp

lemma emit_returns: "dataSource s \<noteq> None \<Longrightarrow> returns (emit event args s)"
  unfolding emit_def by (rule invoke_all_returns) simp

lemma emit_Inr:
  assumes "emit event args s = Inr s'"
  shows "priority s' = priority s" "changeListenersDisabled s' = changeListenersDisabled s"
    "accessedKeys s' = accessedKeys s" "props s' = props s" "shadow s' = shadow s"
    "ds_calls s' = ds_calls s" "(dataSource s' = None) = (dataSource s = None)"
    "emitted s' = emitted s @ [(event, args)]"
  using emit_quiet[of s event args] assms
  by (simp_all add: quiet_def final_simps ds_calls_def emitted_def emits_append)

lemma emit_final:
  "priority (final (emit event args s)) = priority s"
  "changeListenersDisabled (final (emit event args s)) = changeListenersDisabled s"
  "accessedKeys (final (emit event args s)) = accessedKeys s"
  "props (final (emit event args s)) = props s"
  "shadow (final (emit event args s)) = shadow s"
  "ds_calls (final (emit event args s)) = ds_calls s"
  "(dataSource (final (emit event args s)) = None) = (dataSource s = None)"
  "emitted (final (emit event args s)) = emitted s @ [(event, args)]"
  using emit_quiet[of s event args]
  by (simp_all add: quiet_def ds_calls_def emitted_def emits_append)

subsection \<open>The setter hook\<close>

lemma onSetterTriggered_flush:
  assumes "\<not> changeListenersDisabled s" and "dataSource s = Some d" and "shadow s = Some sh"
  shows "\<exists>s'. onSetterTriggered key s = Inr s' \<and>
           ds_calls s' = ds_calls s @ [DsSetWithPriority sh (priority s)] \<and>
           emitted s' = emitted s @
             [(''changed'', [AThis, AChange (accessedKeys s @ [key])
                                      (map (shadow_get sh) (accessedKeys s @ [key]))])] \<and>
           accessedKeys s' = accessedKeys s \<and> \<not> changeListenersDisabled s' \<and>
           shadow s' = shadow s \<and> props s' = props s \<and> priority s' = priority s \<and>
           dataSource s' \<noteq> None"
proof -
  let ?args = "[AThis, AChange (accessedKeys s @ [key]) (map (shadow_get sh) (accessedKeys s @ [key]))]"
  from assms(2) have "returns (emit ''changed'' ?args s)"
    by (intro emit_returns) simp
  then obtain s1 where s1: "emit ''changed'' ?args s = Inr s1"
    by (auto simp: returns_def split: sum.splits)
  note f = emit_Inr[OF s1]
  from f(7) assms(2) obtain d1 where d1: "dataSource s1 = Some d1" by auto
  with f(6) assms(2) have c1: "calls d1 = calls d" by (simp add: ds_calls_def)
  have "onSetterTriggered key s =
          Inr (s1\<lparr>dataSource := Some (setWithPriority sh (priority s1) d1)\<rparr>)"
    using assms(1,3) s1 d1 f(5) by (simp add: onSetterTriggered_def Let_def with_dataSource_def)
  then show ?thesis
    using f assms c1 by (simp add: ds_calls_def setWithPriority_def emitted_def)
qed



lemma set_field_flush:
  assumes "\<not> changeListenersDisabled s" and "dataSource s = Some d"
    and "shadow s = Some sh" and "map_of sh key \<noteq> None"
  shows "\<exists>s'. set_field key v s = Inr s' \<and>
           ds_calls s' = ds_calls s @ [DsSetWithPriority (AList.update key v sh) (priority s)] \<and>
           emitted s' = emitted s @
             [(''changed'', [AThis, AChange (accessedKeys s @ [Some key])
                 (map (shadow_get (AList.update key v sh)) (accessedKeys s @ [Some key]))])] \<and>
           shadow s' = Some (AList.update key v sh) \<and> accessedKeys s' = accessedKeys s \<and>
           \<not> changeListenersDisabled s' \<and> dataSource s' \<noteq> None"
proof -
  let ?s = "s\<lparr>shadow := Some (AList.update key v sh)\<rparr>"
  have "\<not> changeListenersDisabled ?s" "dataSource ?s = Some d" "shadow ?s = Some (AList.update key v sh)"
    using assms by simp_all
  from onSetterTriggered_flush[OF this, of "Some key"] assms(3,4)
  show ?thesis
    by (auto simp: set_field_def ds_calls_def emitted_def shadow_lookup_def shadow_entries_def)
qed


subsection \<open>Incoming value notifications issue no write\<close>

lemma onChildValue_eq:
  "onChildValue snap prev s =
     (case emit ''value'' [AThis, AVal prev] (disableChangeListener s) of
        Inl e \<Rightarrow> Inl e
      | Inr s2 \<Rightarrow> Inr (enableChangeListener s2))"
  by (simp add: onChildValue_def every_def Let_def)

lemma onChildValue_final:
  "ds_calls (final (onChildValue snap prev s)) = ds_calls s"
  "shadow (final (onChildValue snap prev s)) = shadow s"
  "props (final (onChildValue snap prev s)) = props s"
  "priority (final (onChildValue snap prev s)) = priority s"
  "accessedKeys (final (onChildValue snap prev s)) = accessedKeys s"
  "emitted (final (onChildValue snap prev s)) = emitted s @ [(''value'', [AThis, AVal prev])]"
  using emit_final[of "''value''" "[AThis, AVal prev]" "disableChangeListener s"]
  unfolding onChildValue_eq
  by (auto simp: final_def enableChangeListener_def disableChangeListener_def ds_calls_def emitted_def
      split: sum.splits)

lemma onChildValue_get_field:
  "get_field (final (onChildValue snap prev s)) key = get_field s key"
  by (simp add: get_field_def shadow_lookup_def onChildValue_final cong: option.case_cong)

lemma onChildValue_returns:
  assumes "dataSource s \<noteq> None"
  shows "returns (onChildValue snap prev s)"
proof -
  have "returns (emit ''value'' [AThis, AVal prev] (disableChangeListener s))"
    using assms by (intro emit_returns) (simp add: disableChangeListener_def)
  then show ?thesis unfolding onChildValue_eq by (auto simp: returns_def split: sum.splits)
qed

lemma onChildValue_enabled:
  "onChildValue snap prev s = Inr s' \<Longrightarrow> \<not> changeListenersDisabled s'"
  unfolding onChildValue_eq by (auto simp: enableChangeListener_def split: sum.splits)

lemma example_constructed:
  "constructor example_schema (Some example_handle) (Some example_snapshot) = Inr example_object"
  by (simp add: constructor_def buildFromSnapshot_def Let_def example_schema_def example_handle_def
      example_snapshot_def example_object_def numChildren_def entries_def own_enumerable_def
      addPropertyToObject_def with_dataSource_def setReady_def emit_def shadow_lookup_def
      shadow_entries_def)

lemma example_empty_constructed:
  "constructor example_schema (Some example_handle) (Some example_empty_snapshot) =
     Inr example_empty_object"
  by (simp add: constructor_def buildFromSnapshot_def Let_def example_schema_def example_handle_def
      example_empty_snapshot_def example_empty_object_def numChildren_def
      with_dataSource_def setReady_def emit_def)

lemma example_listening_subscribed:
  "on ''changed'' (Fn 1) None example_object = Inr example_listening"
  by (simp add: on_def Let_def example_listening_def example_object_def example_handle_def
      hasListenersOfType_def ee_on_def with_dataSource_def setValueChangedCallback_def)

text \<open>
  C1 (the code departs from the claim): an incoming remote value notification, for any
  snapshot and any object, suspends propagation, emits the \<open>value\<close> event and resumes,
  and does nothing else: it issues no write on the data source, and returns with change propagation enabled whenever the object has a data
  source; a local write of a value to a field with accessor followed by a notification
  whose snapshot reports the same value leaves exactly the one push of the local write.
  But the notification is not applied: every field reads after it as it did before,
  whatever the snapshot reports.
\<close>

theorem C1_remote_value_pushes_nothing_applies_nothing:
  "onChildValue snap prev s =
     (case emit ''value'' [AThis, AVal prev] (disableChangeListener s) of
        Inl e \<Rightarrow> Inl e
      | Inr s2 \<Rightarrow> Inr (enableChangeListener s2)) \<and>
   ds_calls (final (onChildValue snap prev s)) = ds_calls s \<and>
   get_field (final (onChildValue snap prev s)) field = get_field s field \<and>
   emitted (final (onChildValue snap prev s)) = emitted s @ [(''value'', [AThis, AVal prev])] \<and>
   (dataSource s \<noteq> None \<longrightarrow>
      returns (onChildValue snap prev s) \<and>
      \<not> changeListenersDisabled (final (onChildValue snap prev s))) \<and>
   (dataSource s = Some d \<and> \<not> changeListenersDisabled s \<and> shadow s = Some sh \<and>
    map_of sh key \<noteq> None \<and> snapshot_field snap key = Some v \<longrightarrow>
      (\<exists>s1 s2. set_field key v s = Inr s1 \<and> onChildValue snap prev s1 = Inr s2 \<and>
         ds_calls s2 = ds_calls s @ [DsSetWithPriority (AList.update key v sh) (priority s)]))"
proof (intro conjI impI)
  show "onChildValue snap prev s =
     (case emit ''value'' [AThis, AVal prev] (disableChangeListener s) of
        Inl e \<Rightarrow> Inl e
      | Inr s2 \<Rightarrow> Inr (enableChangeListener s2))"
    by (rule onChildValue_eq)
  show "ds_calls (final (onChildValue snap prev s)) = ds_calls s"
    by (rule onChildValue_final)
  show "get_field (final (onChildValue snap prev s)) field = get_field s field"
    by (rule onChildValue_get_field)
  show "emitted (final (onChildValue snap prev s)) = emitted s @ [(''value'', [AThis, AVal prev])]"
    by (rule onChildValue_final)
next
  assume "dataSource s \<noteq> None"
  then show "returns (onChildValue snap prev s)" by (rule onChildValue_returns)
next
  assume "dataSource s \<noteq> None"
  then have "returns (onChildValue snap prev s)" by (rule onChildValue_returns)
  then obtain s' where "onChildValue snap prev s = Inr s'"
    by (auto simp: returns_def split: sum.splits)
  then show "\<not> changeListenersDisabled (final (onChildValue snap prev s))"
    using onChildValue_enabled[of snap prev s s'] by (simp add: final_simps)
next
  assume h: "dataSource s = Some d \<and> \<not> changeListenersDisabled s \<and> shadow s = Some sh \<and>
    map_of sh key \<noteq> None \<and> snapshot_field snap key = Some v"
  then obtain s1 where s1: "set_field key v s = Inr s1"
    and c1: "ds_calls s1 = ds_calls s @ [DsSetWithPriority (AList.update key v sh) (priority s)]"
    and d1: "dataSource s1 \<noteq> None"
    using set_field_flush[of s d sh key v] by auto
  from d1 have "returns (onChildValue snap prev s1)" by (rule onChildValue_returns)
  then obtain s2 where s2: "onChildValue snap prev s1 = Inr s2"
    by (auto simp: returns_def split: sum.splits)
  have "ds_calls s2 = ds_calls s1"
    using onChildValue_final(1)[of snap prev s1] s2 by (simp add: final_simps)
  with s1 s2 c1 show "\<exists>s1 s2. set_field key v s = Inr s1 \<and> onChildValue snap prev s1 = Inr s2 \<and>
         ds_calls s2 = ds_calls s @ [DsSetWithPriority (AList.update key v sh) (priority s)]"
    by auto
qed

text \<open>
  The failing input: the local score is 1 and the snapshot reports 2; after the
  notification the score is still 1. The echo of a local write is handled as claimed.
\<close>

theorem C1_failing_input:
  "snapshot_field example_update ''score'' = Some (JNum 2) \<and>
   get_field example_listening ''score'' = JNum 1 \<and>
   returns (onChildValue example_update JNull example_listening) \<and>
   get_field (final (onChildValue example_update JNull example_listening)) ''score'' = JNum 1 \<and>
   ds_calls (final (onChildValue example_update JNull example_listening)) = [] \<and>
   snapshot_field example_update ''score'' = Some (JNum 2) \<and>
   (\<exists>s1 s2. set_field ''score'' (JNum 2) example_object = Inr s1 \<and>
      onChildValue example_update JNull s1 = Inr s2 \<and>
      ds_calls s2 = [DsSetWithPriority [(''name'', JStr ''Ann''), (''score'', JNum 2)] (JNum 5)])"
proof -
  have a: "snapshot_field example_update ''score'' = Some (JNum 2)"
    "get_field example_listening ''score'' = JNum 1"
    "dataSource example_listening \<noteq> None" "ds_calls example_listening = []"
    by (simp_all add: example_listening_def example_object_def example_update_def
        example_snapshot_def example_handle_def snapshot_field_def entries_def get_field_def
        shadow_lookup_def ds_calls_def)
  have b: "dataSource example_object = Some (example_handle\<lparr>ready := True\<rparr>) \<and>
      \<not> changeListenersDisabled example_object \<and>
      shadow example_object = Some [(''name'', JStr ''Ann''), (''score'', JNum 1)] \<and>
      map_of [(''name'', JStr ''Ann''), (''score'', JNum 1)] ''score'' \<noteq> None"
    "ds_calls example_object = []" "priority example_object = JNum 5"
    "AList.update ''score'' (JNum 2) [(''name'', JStr ''Ann''), (''score'', JNum 1)] =
       [(''name'', JStr ''Ann''), (''score'', JNum 2)]"
    by (simp_all add: example_object_def example_handle_def ds_calls_def)
  from C1_remote_value_pushes_nothing_applies_nothing[THEN conjunct2,
      of example_update JNull example_listening "''score''"] a
  have 1: "returns (onChildValue example_update JNull example_listening) \<and>
   get_field (final (onChildValue example_update JNull example_listening)) ''score'' = JNum 1 \<and>
   ds_calls (final (onChildValue example_update JNull example_listening)) = []"
    by simp
  from C1_remote_value_pushes_nothing_applies_nothing[THEN conjunct2,
      of example_update JNull example_object
      "''score''" "example_handle\<lparr>ready := True\<rparr>"
      "[(''name'', JStr ''Ann''), (''score'', JNum 1)]" "''score''" "JNum 2"] a(1) b
  have 2: "\<exists>s1 s2. set_field ''score'' (JNum 2) example_object = Inr s1 \<and>
      onChildValue example_update JNull s1 = Inr s2 \<and>
      ds_calls s2 = [DsSetWithPriority [(''name'', JStr ''Ann''), (''score'', JNum 2)] (JNum 5)]"
    by simp
  from a 1 2 show ?thesis by simp
qed

subsection \<open>Incoming value notifications apply nothing\<close>

text \<open>
  C2 (the code departs from the claim): whatever the snapshot reports and whatever
  listeners are subscribed, an incoming value notification leaves every field of the
  object as it was and emits the \<open>value\<close> event only; no \<open>changed\<close> event is
  emitted and no differing field is applied.
\<close>

theorem C2_remote_value_not_applied:
  "shadow (final (onChildValue snap prev s)) = shadow s \<and>
   props (final (onChildValue snap prev s)) = props s \<and>
   emitted (final (onChildValue snap prev s)) = emitted s @ [(''value'', [AThis, AVal prev])]"
  by (simp add: onChildValue_final)

text \<open>
  The failing input: a \<open>changed\<close> listener is subscribed, the local score is 1 and the
  snapshot reports 2.
\<close>

theorem C2_failing_input:
  "hasListenersOfType ''changed'' example_listening \<and>
   snapshot_field example_update ''score'' = Some (JNum 2) \<and>
   get_field example_listening ''score'' = JNum 1 \<and>
   returns (onChildValue example_update JNull example_listening) \<and>
   get_field (final (onChildValue example_update JNull example_listening)) ''score'' = JNum 1 \<and>
   emitted (final (onChildValue example_update JNull example_listening)) =
     [(''ready'', []), (''value'', [AThis, AVal JNull])]"
proof -
  have a: "hasListenersOfType ''changed'' example_listening"
    "snapshot_field example_update ''score'' = Some (JNum 2)"
    "get_field example_listening ''score'' = JNum 1"
    "emitted example_listening = [(''ready'', [])]"
    "dataSource example_listening \<noteq> None"
    by (simp_all add: example_listening_def example_object_def example_update_def
        example_snapshot_def hasListenersOfType_def snapshot_field_def entries_def get_field_def
        shadow_lookup_def emitted_def)
  from a(5) have r: "returns (onChildValue example_update JNull example_listening)"
    by (rule onChildValue_returns)
  note c = C2_remote_value_not_applied[of example_update JNull example_listening]
  from c have "get_field (final (onChildValue example_update JNull example_listening)) ''score'' =
      get_field example_listening ''score''"
    by (simp add: get_field_def shadow_lookup_def cong: option.case_cong)
  with c a r show ?thesis by simp
qed

subsection \<open>Attaching and detaching the remote callbacks\<close>

lemma on_added_first:
  assumes "\<not> hasListenersOfType ''added'' s"
  shows "on ''added'' h c s = Inr (ee_on ''added'' h (case c of None \<Rightarrow> This | Some c' \<Rightarrow> c') s)"
  using assms by (simp add: on_def Let_def)

text \<open>
  C5 (the code departs from the claim): subscribing the first \<open>added\<close> listener
  returns with the listener subscribed and the data source untouched, so the
  child-added callback is not attached by it.
\<close>

theorem C5_first_added_listener_attaches_nothing:
  "\<not> hasListenersOfType ''added'' s \<longrightarrow>
     (\<exists>s'. on ''added'' h c s = Inr s' \<and> hasListenersOfType ''added'' s' \<and>
            dataSource s' = dataSource s)"
  by (simp add: on_added_first) (simp add: ee_on_def hasListenersOfType_def)

text \<open>
  The failing input: the first \<open>added\<close> listener on the example object. Only a
  second subscription attaches the callback.
\<close>

theorem C5_failing_input:
  "\<not> hasListenersOfType ''added'' example_object \<and>
   returns (on ''added'' (Fn 1) None example_object) \<and>
   hasListenersOfType ''added'' (final (on ''added'' (Fn 1) None example_object)) \<and>
   dataSource (final (on ''added'' (Fn 1) None example_object)) =
     Some (example_handle\<lparr>ready := True\<rparr>) \<and>
   \<not> childAddedCallback (example_handle\<lparr>ready := True\<rparr>)"
proof -
  have a: "\<not> hasListenersOfType ''added'' example_object"
    "dataSource example_object = Some (example_handle\<lparr>ready := True\<rparr>)"
    "\<not> childAddedCallback (example_handle\<lparr>ready := True\<rparr>)"
    by (simp_all add: example_object_def example_handle_def hasListenersOfType_def)
  from C5_first_added_listener_attaches_nothing[of example_object "Fn 1" None] a
  show ?thesis by (auto simp: final_simps returns_simps)
qed

lemma on_added_second:
  "on ''added'' (Fn 2) None example_second_added =
     Inr (example_second_added
            \<lparr>events := (events example_second_added)(''added'' := [EE (Fn 1) This, EE (Fn 2) This]),
             dataSource := Some (example_handle\<lparr>ready := True, childAddedCallback := True\<rparr>)\<rparr>)"
  by (simp add: on_def Let_def example_second_added_def example_object_def example_handle_def
      hasListenersOfType_def ee_on_def with_dataSource_def setChildAddedCallback_def)

lemma off_removed_detaches_value:
  assumes "dataSource s = Some d" and "events s ''removed'' = []" and "events s ''value'' = []"
  shows "\<exists>s'. off (Some ''removed'') h c s = Inr s' \<and>
           events s' ''changed'' = events s ''changed'' \<and>
           dataSource s' = Some (removeValueChangedCallback d)"
  using assms
  by (auto simp: off_def Let_def truthy_event_def property_key_def ee_removeListener_def
      ee_removeAllListeners_def hasListenersOfType_def with_dataSource_def split: option.splits)

lemma off_changed_keeps_value:
  assumes "dataSource s = Some d"
  shows "\<exists>s' d'. off (Some ''changed'') h c s = Inr s' \<and> dataSource s' = Some d' \<and>
           valueChangedCallback d' = valueChangedCallback d"
  using assms
  by (auto simp: off_def Let_def truthy_event_def property_key_def ee_removeListener_def
      ee_removeAllListeners_def hasListenersOfType_def with_dataSource_def
      removeChildChangedCallback_def split: option.splits)

text \<open>
  C6 (the code departs from the claim): unsubscribing from \<open>removed\<close> while there is
  no \<open>removed\<close> and no \<open>value\<close> listener detaches the value-changed callback and
  leaves the \<open>changed\<close> listeners subscribed; unsubscribing from \<open>changed\<close> never
  changes whether the value-changed callback is attached.
\<close>

theorem C6_value_callback_detached_and_kept_wrongly:
  "(dataSource s = Some d \<and> events s ''removed'' = [] \<and> events s ''value'' = [] \<longrightarrow>
      (\<exists>s'. off (Some ''removed'') h c s = Inr s' \<and>
             events s' ''changed'' = events s ''changed'' \<and>
             dataSource s' = Some (removeValueChangedCallback d))) \<and>
   (dataSource s = Some d \<longrightarrow>
      (\<exists>s' d'. off (Some ''changed'') h c s = Inr s' \<and> dataSource s' = Some d' \<and>
                valueChangedCallback d' = valueChangedCallback d))"
  using off_removed_detaches_value[of s d h c] off_changed_keeps_value[of s d h c] by blast

text \<open>
  The failing inputs, on the object with one \<open>changed\<close> listener: unsubscribing from
  \<open>removed\<close> detaches the callback under the listener, and unsubscribing the
  listener leaves the callback attached with no listener left.
\<close>

theorem C6_failing_input:
  "dataSource example_listening =
     Some (example_handle\<lparr>ready := True, valueChangedCallback := True\<rparr>) \<and>
   events example_listening ''removed'' = [] \<and> events example_listening ''value'' = [] \<and>
   events example_listening ''changed'' = [EE (Fn 1) This] \<and>
   (\<exists>s'. off (Some ''removed'') None None example_listening = Inr s' \<and>
      events s' ''changed'' = [EE (Fn 1) This] \<and>
      dataSource s' = Some (example_handle\<lparr>ready := True, valueChangedCallback := False\<rparr>)) \<and>
   (\<exists>s' d'. off (Some ''changed'') (Some (Fn 1)) None example_listening = Inr s' \<and>
      events s' ''changed'' = [] \<and> events s' ''value'' = [] \<and>
      dataSource s' = Some d' \<and> valueChangedCallback d')"
proof -
  have a: "dataSource example_listening =
     Some (example_handle\<lparr>ready := True, valueChangedCallback := True\<rparr>)"
    "events example_listening ''removed'' = []" "events example_listening ''value'' = []"
    "events example_listening ''changed'' = [EE (Fn 1) This]"
    by (simp_all add: example_listening_def example_object_def)
  have b: "removeValueChangedCallback (example_handle\<lparr>ready := True, valueChangedCallback := True\<rparr>) =
      example_handle\<lparr>ready := True, valueChangedCallback := False\<rparr>"
    by (simp add: removeValueChangedCallback_def)
  have e: "events (final (off (Some ''changed'') (Some (Fn 1)) None example_listening)) =
      (events example_listening)(''changed'' := [])"
    by (simp add: off_def Let_def truthy_event_def property_key_def ee_removeListener_def
        keeps_def hasListenersOfType_def with_dataSource_events a)
  note c = C6_value_callback_detached_and_kept_wrongly[of example_listening
      "example_handle\<lparr>ready := True, valueChangedCallback := True\<rparr>"]
  from c[of None None] a b
  have 1: "\<exists>s'. off (Some ''removed'') None None example_listening = Inr s' \<and>
      events s' ''changed'' = [EE (Fn 1) This] \<and>
      dataSource s' = Some (example_handle\<lparr>ready := True, valueChangedCallback := False\<rparr>)"
    by simp
  from c[of "Some (Fn 1)" None] a e
  have 2: "\<exists>s' d'. off (Some ''changed'') (Some (Fn 1)) None example_listening = Inr s' \<and>
      events s' ''changed'' = [] \<and> events s' ''value'' = [] \<and>
      dataSource s' = Some d' \<and> valueChangedCallback d'"
    by (auto simp: final_simps)
  from a 1 2 show ?thesis by simp
qed

subsection \<open>One-shot subscriptions\<close>

lemma off_events:
  "events (final (off event h c s)) =
     events (if truthy_event event \<and> (h \<noteq> None \<or> c \<noteq> None)
             then ee_removeListener (property_key event) h c s
             else ee_removeAllListeners event s)"
proof -
  define s1 where "s1 = (if truthy_event event \<and> (h \<noteq> None \<or> c \<noteq> None)
                then ee_removeListener (property_key event) h c s
                else ee_removeAllListeners event s)"
  have "events (final (off event h c s)) = events s1"
    unfolding off_def s1_def[symmetric] Let_def
    by (cases event) (simp_all add: final_simps with_dataSource_events)
  then show ?thesis by (simp add: s1_def)
qed

lemma with_dataSource_trace:
  "trace (final (with_dataSource f s)) = trace s"
  "promises (final (with_dataSource f s)) = promises s"
  by (simp_all add: with_dataSource_def final_def split: option.splits)

lemma off_trace:
  "trace (final (off event h c s)) = trace s"
  "promises (final (off event h c s)) = promises s"
proof -
  define s1 where "s1 = (if truthy_event event \<and> (h \<noteq> None \<or> c \<noteq> None)
                then ee_removeListener (property_key event) h c s
                else ee_removeAllListeners event s)"
  have s1: "trace s1 = trace s" "promises s1 = promises s"
    by (simp_all add: s1_def ee_removeListener_def ee_removeAllListeners_def)
  have "trace (final (off event h c s)) = trace s1"
    unfolding off_def s1_def[symmetric] Let_def
    by (cases event) (simp_all add: final_simps with_dataSource_trace)
  with s1 show "trace (final (off event h c s)) = trace s" by simp
  have "promises (final (off event h c s)) = promises s1"
    unfolding off_def s1_def[symmetric] Let_def
    by (cases event) (simp_all add: final_simps with_dataSource_trace)
  with s1 show "promises (final (off event h c s)) = promises s" by simp
qed

lemma invoke_once_wrapper:
  assumes "event \<noteq> []" and "dataSource s \<noteq> None"
  shows "\<exists>s'. invoke (OnceWrapper p event (Some f) ctx) c args s = Inr s' \<and>
           events s' event =
             filter (keeps (OnceWrapper p event (Some f) ctx) (Some ctx)) (events s event) \<and>
           trace s' = trace s @ [Call f ctx args] \<and> dataSource s' \<noteq> None"
proof -
  let ?w = "OnceWrapper p event (Some f) ctx"
  from assms(2) have "returns (off (Some event) (Some ?w) (Some ctx) s)" by (rule off_returns)
  then obtain s1 where s1: "off (Some event) (Some ?w) (Some ctx) s = Inr s1"
    by (auto simp: returns_def split: sum.splits)
  have e: "events s1 event = filter (keeps ?w (Some ctx)) (events s event)"
    using off_events[of "Some event" "Some ?w" "Some ctx" s] s1 assms(1)
    by (simp add: final_simps truthy_event_def property_key_def ee_removeListener_def)
  have t: "trace s1 = trace s"
    using off_trace(1)[of "Some event" "Some ?w" "Some ctx" s] s1 by (simp add: final_simps)
  have d: "dataSource s1 \<noteq> None"
    using off_quiet[of s "Some event" "Some ?w" "Some ctx"] s1 assms(2)
    by (simp add: final_simps quiet_def)
  show ?thesis using s1 e t d by (simp add: resolve_def split: option.splits)
qed

text \<open>
  C7 (the code departs from the claim): a one-shot subscription made with a context
  other than the object itself is not removed by its first delivery. When it is the
  event's only listener, firing the event calls the handler and leaves the subscription
  in place, so every later firing calls the handler again.
\<close>

theorem C7_once_with_context_stays_subscribed:
  "ctx \<noteq> This \<and> event \<noteq> [] \<and> dataSource s \<noteq> None \<and>
   events s event = [EE (OnceWrapper p event (Some f) ctx) This] \<longrightarrow>
     (\<exists>s'. emit event args s = Inr s' \<and>
            events s' event = [EE (OnceWrapper p event (Some f) ctx) This] \<and>
            trace s' = trace s @ [Emit event args, Call f ctx args] \<and>
            dataSource s' \<noteq> None)"
proof
  assume h: "ctx \<noteq> This \<and> event \<noteq> [] \<and> dataSource s \<noteq> None \<and>
   events s event = [EE (OnceWrapper p event (Some f) ctx) This]"
  let ?s0 = "s\<lparr>trace := trace s @ [Emit event args]\<rparr>"
  from h have "event \<noteq> []" "dataSource ?s0 \<noteq> None" by simp_all
  from invoke_once_wrapper[OF this, of p f ctx This args] h
  show "\<exists>s'. emit event args s = Inr s' \<and>
            events s' event = [EE (OnceWrapper p event (Some f) ctx) This] \<and>
            trace s' = trace s @ [Emit event args, Call f ctx args] \<and>
            dataSource s' \<noteq> None"
    by (auto simp: emit_def keeps_def)
qed

text \<open>With the default context the first delivery does remove the subscription.\<close>

lemma once_default_context_unsubscribes:
  assumes "event \<noteq> []" and "dataSource s \<noteq> None"
    and "events s event = [EE (OnceWrapper p event (Some f) This) This]"
  shows "\<exists>s'. emit event args s = Inr s' \<and> events s' event = [] \<and>
           trace s' = trace s @ [Emit event args, Call f This args]"
proof -
  let ?s0 = "s\<lparr>trace := trace s @ [Emit event args]\<rparr>"
  from assms have "event \<noteq> []" "dataSource ?s0 \<noteq> None" by simp_all
  from invoke_once_wrapper[OF this, of p f This This args] assms(3)
  show ?thesis by (auto simp: emit_def keeps_def)
qed

lemma example_once_subscribed:
  "once ''moved'' (Some 7) (Some (Ctx 1)) example_object = (0, example_once)"
  by (simp add: once_def on_def Let_def example_once_def example_object_def example_handle_def
      hasListenersOfType_def ee_on_def with_dataSource_def setChildMovedCallback_def)

text \<open>
  The failing input: \<^verbatim>\<open>once('moved', handler, context)\<close> on the example object, then
  the event fires twice: the handler is called twice.
\<close>

theorem C7_failing_input:
  "\<exists>s1 s2. emit ''moved'' [AThis, AVal JNull] example_once = Inr s1 \<and>
     emit ''moved'' [AThis, AVal (JStr ''bob'')] s1 = Inr s2 \<and>
     trace s2 = [Emit ''ready'' [],
                 Emit ''moved'' [AThis, AVal JNull], Call 7 (Ctx 1) [AThis, AVal JNull],
                 Emit ''moved'' [AThis, AVal (JStr ''bob'')],
                 Call 7 (Ctx 1) [AThis, AVal (JStr ''bob'')]]"
proof -
  have a: "Ctx 1 \<noteq> This \<and> ''moved'' \<noteq> [] \<and> dataSource example_once \<noteq> None \<and>
      events example_once ''moved'' = [EE (OnceWrapper 0 ''moved'' (Some 7) (Ctx 1)) This]"
    "trace example_once = [Emit ''ready'' []]"
    by (simp_all add: example_once_def example_object_def)
  from C7_once_with_context_stays_subscribed[of "Ctx 1" "''moved''" example_once 0 7
      "[AThis, AVal JNull]"] a(1)
  obtain s1 where s1: "emit ''moved'' [AThis, AVal JNull] example_once = Inr s1"
    "events s1 ''moved'' = [EE (OnceWrapper 0 ''moved'' (Some 7) (Ctx 1)) This]"
    "trace s1 = trace example_once @ [Emit ''moved'' [AThis, AVal JNull], Call 7 (Ctx 1) [AThis, AVal JNull]]"
    "dataSource s1 \<noteq> None"
    by blast
  from C7_once_with_context_stays_subscribed[of "Ctx 1" "''moved''" s1 0 7
      "[AThis, AVal (JStr ''bob'')]"] s1
  obtain s2 where s2: "emit ''moved'' [AThis, AVal (JStr ''bob'')] s1 = Inr s2"
    "trace s2 = trace s1 @ [Emit ''moved'' [AThis, AVal (JStr ''bob'')],
       Call 7 (Ctx 1) [AThis, AVal (JStr ''bob'')]]"
    by auto
  from s1 s2 a(2) show ?thesis by simp
qed

subsection \<open>Writing the priority\<close>

text \<open>
  C9, amended: on an object with a data source, a write to the priority returns with the
  priority set; it issues exactly one remote priority update when the value differs
  from the current priority and none when it is the same; suspended or not, it never
  touches the pending keys, the fields or the events emitted.
\<close>

theorem C9_guarded_priority_write:
  "dataSource s = Some d \<longrightarrow>
     (\<exists>s'. set_priority v s = Inr s' \<and> priority s' = v \<and>
        ds_calls s' = (if priority s \<noteq> v then ds_calls s @ [DsSetPriority v] else ds_calls s) \<and>
        accessedKeys s' = accessedKeys s \<and> emitted s' = emitted s \<and> shadow s' = shadow s \<and>
        changeListenersDisabled s' = changeListenersDisabled s)"
  by (simp add: set_priority_def with_dataSource_def setPriority_def ds_calls_def emitted_def)

text \<open>Writing the current priority again issues no remote update.\<close>

theorem C9_counterexample:
  "priority example_object = JNum 5 \<and>
   returns (set_priority (JNum 5) example_object) \<and>
   ds_calls (final (set_priority (JNum 5) example_object)) = []"
  by (simp add: set_priority_def example_object_def example_handle_def ds_calls_def
      final_simps returns_simps)

theorem C9_witness:
  "dataSource (disableChangeListener example_object) = Some (example_handle\<lparr>ready := True\<rparr>) \<and>
   (\<exists>s'. set_priority (JNum 7) (disableChangeListener example_object) = Inr s' \<and>
      priority s' = JNum 7 \<and> ds_calls s' = [DsSetPriority (JNum 7)] \<and> accessedKeys s' = [] \<and>
      changeListenersDisabled s')"
proof -
  have a: "dataSource (disableChangeListener example_object) = Some (example_handle\<lparr>ready := True\<rparr>)"
    "priority (disableChangeListener example_object) = JNum 5"
    "ds_calls (disableChangeListener example_object) = []"
    "accessedKeys (disableChangeListener example_object) = []"
    "changeListenersDisabled (disableChangeListener example_object)"
    by (simp_all add: disableChangeListener_def example_object_def example_handle_def ds_calls_def)
  from C9_guarded_priority_write[of "disableChangeListener example_object"
      "example_handle\<lparr>ready := True\<rparr>" "JNum 7"] a
  show ?thesis by auto
qed

subsection \<open>Transactions\<close>








subsection \<open>The pending keys are never cleared\<close>
















subsection \<open>Transactions end with propagation enabled\<close>









text \<open>
  An inner transaction ends the suspension it runs in: the write after it is pushed at
  once.
\<close>

lemma nested_transaction_flushes_inside_suspension:
  "ds_calls (final (run_all [Disable, Write ''score'' (JNum 2), Nested [Write ''name'' (JStr ''Bob'')],
                             Write ''score'' (JNum 3)] example_object)) =
     [DsSetWithPriority [(''name'', JStr ''Bob''), (''score'', JNum 2)] (JNum 5),
      DsSetWithPriority [(''name'', JStr ''Bob''), (''score'', JNum 3)] (JNum 5)]"
  by (simp add: set_field_def onSetterTriggered_def Let_def emit_def with_dataSource_def
      disableChangeListener_def enableChangeListener_def example_object_def example_handle_def
      shadow_get_def shadow_lookup_def shadow_entries_def property_key_def final_simps ds_calls_def
      setWithPriority_def)

subsection \<open>Building from a snapshot\<close>

lemma addPropertyToObject_lookup:
  "shadow_lookup (addPropertyToObject key v s) F =
     (if F = key then Some v else shadow_lookup s F)"
  "map_of (props (addPropertyToObject key v s)) F =
     (if F = key then None else map_of (props s) F)"
  by (simp_all add: addPropertyToObject_def shadow_lookup_def shadow_entries_def update_conv'
      delete_conv' split: option.splits)

lemma build_fields_shadow:
  assumes "own_enumerable F s"
  shows "shadow_lookup (build_fields kvs s) F =
           (case map_of (rev kvs) F of Some v \<Rightarrow> Some v | None \<Rightarrow> shadow_lookup s F)"
  using assms
proof (induction kvs arbitrary: s)
  case Nil
  then show ?case by simp
next
  case (Cons kv kvs)
  obtain key v where kv: "kv = (key, v)" by (cases kv)
  define s1 where "s1 = (if own_enumerable key s then addPropertyToObject key v s else s)"
  have own: "own_enumerable F s1"
    using Cons.prems by (auto simp: s1_def own_enumerable_def addPropertyToObject_lookup)
  have sh: "shadow_lookup s1 F = (if F = key then Some v else shadow_lookup s F)"
    using Cons.prems by (auto simp: s1_def addPropertyToObject_lookup)
  have b: "build_fields (kv # kvs) s = build_fields kvs s1"
    by (simp add: kv s1_def)
  have r: "map_of (rev (kv # kvs)) F =
      (case map_of (rev kvs) F of Some x \<Rightarrow> Some x | None \<Rightarrow> if F = key then Some v else None)"
    by (simp add: kv map_add_def split: option.splits)
  show ?case
    unfolding b r using Cons.IH[OF own] sh by (cases "F = key") (simp_all split: option.splits)
qed

lemma build_fields_frame:
  "priority (build_fields kvs s) = priority s"
  "dataSource (build_fields kvs s) = dataSource s"
  "events (build_fields kvs s) = events s"
  "trace (build_fields kvs s) = trace s"
  by (induction kvs s rule: build_fields.induct) (simp_all add: addPropertyToObject_def)

lemma buildFromSnapshot_fields:
  assumes "events s ''ready'' = []"
  shows "\<exists>s'. buildFromSnapshot snap s = Inr s' \<and> priority s' = snap_priority snap \<and>
           (\<forall>F v. own_enumerable F s \<and> snapshot_field snap F = Some v \<longrightarrow> get_field s' F = v)"
proof -
  define s3 where "s3 =
    (let s1 = s\<lparr>priority := snap_priority snap\<rparr>;
         s2 = (if falsy (obj_id s1) then s1\<lparr>obj_id := snap_key snap\<rparr> else s1)
     in if dataSource s2 = None then s2\<lparr>dataSource := Some (snap_ref snap)\<rparr> else s2)"
  have p: "priority s3 = snap_priority snap" "events s3 = events s" "dataSource s3 \<noteq> None"
    "shadow s3 = shadow s" "props s3 = props s"
    by (auto simp: s3_def Let_def)
  then obtain d where d: "dataSource s3 = Some d" by auto
  have own: "own_enumerable F s3 = own_enumerable F s" for F
    using p by (simp add: own_enumerable_def shadow_lookup_def)
  show ?thesis
  proof (cases "numChildren snap = 0")
    case True
    then have "entries snap = []"
      by (simp add: numChildren_def entries_def split: snapshot_value.splits)
    then have none: "snapshot_field snap F = None" for F by (simp add: snapshot_field_def)
    have "buildFromSnapshot snap s =
        emit ''ready'' [] (s3\<lparr>dataSource := Some (setReady d)\<rparr>)"
      using True d unfolding buildFromSnapshot_def s3_def Let_def
      by (simp add: with_dataSource_def Let_def)
    also have "\<dots> = Inr (s3\<lparr>dataSource := Some (setReady d), trace := trace s3 @ [Emit ''ready'' []]\<rparr>)"
      using assms p(2) by (simp add: emit_def)
    finally show ?thesis using p none by simp
  next
    case False
    let ?b = "build_fields (entries snap) s3"
    have bd: "dataSource ?b = Some d" "events ?b = events s" "priority ?b = snap_priority snap"
      using d p by (simp_all add: build_fields_frame)
    have "buildFromSnapshot snap s = emit ''ready'' [] (?b\<lparr>dataSource := Some (setReady d)\<rparr>)"
      using False bd(1) unfolding buildFromSnapshot_def s3_def[unfolded Let_def, symmetric] Let_def
      by (simp add: with_dataSource_def)
    also have "\<dots> = Inr (?b\<lparr>dataSource := Some (setReady d), trace := trace ?b @ [Emit ''ready'' []]\<rparr>)"
      using assms bd(2) by (simp add: emit_def)
    finally have r: "buildFromSnapshot snap s =
        Inr (?b\<lparr>dataSource := Some (setReady d), trace := trace ?b @ [Emit ''ready'' []]\<rparr>)" .
    have "get_field (?b\<lparr>dataSource := Some (setReady d), trace := trace ?b @ [Emit ''ready'' []]\<rparr>) F = v"
      if "own_enumerable F s" and "snapshot_field snap F = Some v" for F v
      using build_fields_shadow[of F s3 "entries snap"] that own[of F]
      by (simp add: get_field_def snapshot_field_def shadow_lookup_def)
    with r bd show ?thesis by simp
  qed
qed

text \<open>
  C8: for every schema, data source and snapshot, the constructor given the snapshot
  returns an object whose priority is the snapshot's priority and in which every schema
  field present in the snapshot's value equals the snapshot's value for it.
\<close>

theorem C8_materialization:
  "\<exists>s. constructor declared d (Some snap) = Inr s \<and> priority s = snap_priority snap \<and>
     (\<forall>F v. map_of declared F \<noteq> None \<and> snapshot_field snap F = Some v \<longrightarrow> get_field s F = v)"
proof -
  let ?this = "\<lparr>obj_id = (case d of None \<Rightarrow> JNum 0 | Some d' \<Rightarrow> ds_key d'),
                  priority = JNum 0, dataSource = d, changeListenersDisabled = False,
                  accessedKeys = [], events = (\<lambda>e. []), props = declared, shadow = None,
                  trace = [], promises = (\<lambda>p. None), next_promise = 0\<rparr>"
  have "events ?this ''ready'' = []" by simp
  from buildFromSnapshot_fields[OF this, of snap]
  show ?thesis by (simp add: constructor_def own_enumerable_def shadow_lookup_def)
qed

theorem C8_witness:
  "map_of example_schema ''name'' \<noteq> None \<and> map_of example_schema ''score'' \<noteq> None \<and>
   snapshot_field example_snapshot ''name'' = Some (JStr ''Ann'') \<and>
   snapshot_field example_snapshot ''score'' = Some (JNum 1) \<and>
   snap_priority example_snapshot = JNum 5 \<and>
   (\<exists>s. constructor example_schema (Some example_handle) (Some example_snapshot) = Inr s \<and>
      priority s = JNum 5 \<and> get_field s ''name'' = JStr ''Ann'' \<and> get_field s ''score'' = JNum 1)"
proof -
  have a: "map_of example_schema ''name'' \<noteq> None" "map_of example_schema ''score'' \<noteq> None"
    "snapshot_field example_snapshot ''name'' = Some (JStr ''Ann'')"
    "snapshot_field example_snapshot ''score'' = Some (JNum 1)"
    "snap_priority example_snapshot = JNum 5"
    by (simp_all add: example_schema_def example_snapshot_def snapshot_field_def entries_def)
  from C8_materialization[of example_schema "Some example_handle" example_snapshot]
  obtain s where s: "constructor example_schema (Some example_handle) (Some example_snapshot) = Inr s"
    "priority s = snap_priority example_snapshot"
    "\<forall>F v. map_of example_schema F \<noteq> None \<and> snapshot_field example_snapshot F = Some v \<longrightarrow>
       get_field s F = v"
    by blast
  from s(3) a have "get_field s ''name'' = JStr ''Ann''" "get_field s ''score'' = JNum 1"
    by blast+
  with s a show ?thesis by auto
qed


end
